theory Spec2Isabelle
  imports Main
begin

section \<open>JavaScript values used by AdvancedCounter\<close>

subsection \<open>Strings\<close>

text \<open>
  A JavaScript string is a sequence of 16-bit code units, modelled as a list of natural
  numbers; \<open>js\<close> turns a literal of Latin-1 characters into its code units.
\<close>

type_synonym codeUnit = nat

type_synonym jsString = "codeUnit list"

definition js :: "string \<Rightarrow> jsString" where
  "js s = map of_char s"

subsection \<open>Numbers\<close>

text \<open>
  The component keeps \<open>count\<close>, \<open>step\<close> and the elements of \<open>history\<close> in values of the
  JavaScript type \<open>number\<close>, a double. The only numbers the component can compute are
  integers, the two zeros, the two infinities and the not-a-number value: \<open>parseInt\<close>
  returns nothing else, and sums and differences of such values are such values again.
  \<open>Num 0\<close> is the positive zero. Two numbers are the same for \<open>Object.is\<close> exactly when
  they are equal here.
\<close>

datatype number = Num int | NegZero | PosInf | NegInf | NaN

text \<open>
  Rounding of a natural number to the nearest double, ties to the even significand: below
  \<open>2^53\<close> every integer is a double; above, the 53 leading bits are kept.
\<close>

fun bitLength :: "nat \<Rightarrow> nat" where
  "bitLength m = (if m = 0 then 0 else Suc (bitLength (m div 2)))"

declare bitLength.simps [simp del]

definition roundInt :: "nat \<Rightarrow> nat" where
  "roundInt m =
     (if m < 2 ^ 53 then m
      else (let e = bitLength m - 53;
                q = m div 2 ^ e;
                r = m mod 2 ^ e;
                half = 2 ^ (e - 1);
                q' = (if half < r \<or> (r = half \<and> odd q) then q + 1 else q)
            in q' * 2 ^ e))"

text \<open>
  The number for a mathematical integer: its rounding, or an infinity when the rounding
  reaches \<open>2^1024\<close>. The integer 0 gives the positive zero.
\<close>

definition toNumber :: "int \<Rightarrow> number" where
  "toNumber i =
     (let m = roundInt (nat \<bar>i\<bar>)
      in if 2 ^ 1024 \<le> m then (if i < 0 then NegInf else PosInf)
         else Num (if i < 0 then - int m else int m))"

text \<open>\<open>-a\<close>, \<open>a + b\<close>, \<open>a - b\<close>, \<open>Math.max(a, b)\<close> and \<open>isNaN(a)\<close> on numbers.\<close>

fun neg :: "number \<Rightarrow> number" where
  "neg (Num a) = (if a = 0 then NegZero else Num (- a))"
| "neg NegZero = Num 0"
| "neg PosInf = NegInf"
| "neg NegInf = PosInf"
| "neg NaN = NaN"

fun add :: "number \<Rightarrow> number \<Rightarrow> number" where
  "add NaN _ = NaN"
| "add _ NaN = NaN"
| "add PosInf NegInf = NaN"
| "add NegInf PosInf = NaN"
| "add PosInf _ = PosInf"
| "add _ PosInf = PosInf"
| "add NegInf _ = NegInf"
| "add _ NegInf = NegInf"
| "add NegZero b = b"
| "add a NegZero = a"
| "add (Num a) (Num b) = toNumber (a + b)"

text \<open>A difference is the sum with the negated second operand.\<close>

definition sub :: "number \<Rightarrow> number \<Rightarrow> number" where
  "sub a b = add a (neg b)"

fun Math_max :: "number \<Rightarrow> number \<Rightarrow> number" where
  "Math_max NaN _ = NaN"
| "Math_max _ NaN = NaN"
| "Math_max PosInf _ = PosInf"
| "Math_max _ PosInf = PosInf"
| "Math_max NegInf b = b"
| "Math_max a NegInf = a"
| "Math_max NegZero NegZero = NegZero"
| "Math_max NegZero (Num b) = (if 0 \<le> b then Num b else NegZero)"
| "Math_max (Num a) NegZero = (if 0 \<le> a then Num a else NegZero)"
| "Math_max (Num a) (Num b) = Num (max a b)"

fun isNaN :: "number \<Rightarrow> bool" where
  "isNaN NaN = True"
| "isNaN _ = False"

subsection \<open>White space and decimal digits\<close>

text \<open>
  The code units that \<open>parseInt\<close> skips at the start of a string: tab, vertical tab, form
  feed, the byte order mark and the space separators of Unicode, and the four line
  terminators.
\<close>

definition isWhiteSpace :: "codeUnit \<Rightarrow> bool" where
  "isWhiteSpace c \<longleftrightarrow>
     c = 0x0009 \<or> c = 0x000B \<or> c = 0x000C \<or> c = 0xFEFF \<or>
     c = 0x0020 \<or> c = 0x00A0 \<or> c = 0x1680 \<or> (0x2000 \<le> c \<and> c \<le> 0x200A) \<or>
     c = 0x202F \<or> c = 0x205F \<or> c = 0x3000 \<or>
     c = 0x000A \<or> c = 0x000D \<or> c = 0x2028 \<or> c = 0x2029"

definition isDigit :: "codeUnit \<Rightarrow> bool" where
  "isDigit c \<longleftrightarrow> 0x30 \<le> c \<and> c \<le> 0x39"

definition digitValue :: "codeUnit \<Rightarrow> nat" where
  "digitValue c = c - 0x30"

definition digitChar :: "nat \<Rightarrow> codeUnit" where
  "digitChar d = 0x30 + d"

text \<open>The mathematical integer a string of decimal digits denotes, most significant first.\<close>

definition mathInt :: "jsString \<Rightarrow> nat" where
  "mathInt Z = foldl (\<lambda>acc c. 10 * acc + digitValue c) 0 Z"

subsection \<open>\<open>parseInt(string, 10)\<close>\<close>

text \<open>
  The built-in \<open>parseInt\<close> at radix 10, the only radix the component passes: leading white
  space is dropped, one sign (\<open>0x2D\<close> is the minus, \<open>0x2B\<close> the plus) is read, the longest
  run of decimal digits is taken and whatever follows it is ignored. With no digit there
  the result is \<open>NaN\<close>; otherwise it is the number for the signed integer the digits
  denote, the negative zero for a minus sign before zeros. All digits are read, as the
  engines do; the language definition also lets an engine read the digits after the
  twentieth as zeros.
\<close>

definition parseInt :: "jsString \<Rightarrow> number" where
  "parseInt inputString =
     (let S = dropWhile isWhiteSpace inputString;
          sign = (case S of [] \<Rightarrow> 1 | c # _ \<Rightarrow> if c = 0x2D then - 1 else (1::int));
          S' = (case S of [] \<Rightarrow> S | c # r \<Rightarrow> if c = 0x2B \<or> c = 0x2D then r else S);
          Z = takeWhile isDigit S'
      in if Z = [] then NaN
         else if mathInt Z = 0 then (if sign = - 1 then NegZero else Num 0)
         else toNumber (sign * int (mathInt Z)))"

subsection \<open>\<open>Number.prototype.toString()\<close>\<close>

fun digits :: "nat \<Rightarrow> jsString" where
  "digits n = (if n < 10 then [digitChar n] else digits (n div 10) @ [digitChar (n mod 10)])"

declare digits.simps [simp del]

text \<open>
  A double is printed with the fewest significant digits that still read back as the same
  double. \<open>shortestFrom x j\<close> looks for such a decimal among the multiples of
  \<open>10^j\<close> next to \<open>x\<close>, then of \<open>10^(j-1)\<close> and so on down to \<open>x\<close> itself; of two
  candidates it takes the nearer one, and the one with the even last digit when they are
  equally near.
\<close>

fun shortestFrom :: "nat \<Rightarrow> nat \<Rightarrow> nat" where
  "shortestFrom x 0 = x"
| "shortestFrom x (Suc j) =
     (let p = 10 ^ Suc j;
          lo = (x div p) * p;
          hi = lo + p;
          okLo = (roundInt lo = x);
          okHi = (roundInt hi = x)
      in if okLo \<and> okHi then
           (if x - lo < hi - x then lo
            else if hi - x < x - lo then hi
            else if even (x div p) then lo else hi)
         else if okLo then lo
         else if okHi then hi
         else shortestFrom x j)"

definition shortest :: "nat \<Rightarrow> nat" where
  "shortest x = shortestFrom x (length (digits x) - 1)"

fun stripZeros :: "nat \<Rightarrow> nat" where
  "stripZeros v = (if v \<noteq> 0 \<and> v mod 10 = 0 then stripZeros (v div 10) else v)"

declare stripZeros.simps [simp del]

text \<open>
  The string of a positive magnitude. Below \<open>2^53\<close> doubles are one apart or closer, so no
  shorter decimal reads back as \<open>x\<close> and all digits of \<open>x\<close> are printed. Above, the
  shortest decimal is printed in full when it has at most 21 digits, and otherwise as its
  first significant digit, a point (\<open>0x2E\<close>) and the other significant digits when there
  are any, and the exponent.
\<close>

definition magnitudeString :: "nat \<Rightarrow> jsString" where
  "magnitudeString x =
     (if x < 2 ^ 53 then digits x
      else (let v = shortest x; n = length (digits v)
            in if n \<le> 21 then digits v
               else (case digits (stripZeros v) of
                       [] \<Rightarrow> []
                     | c # cs \<Rightarrow>
                         c # (if cs = [] then [] else 0x2E # cs) @ js ''e+'' @ digits (n - 1))))"

fun toString :: "number \<Rightarrow> jsString" where
  "toString NaN = js ''NaN''"
| "toString PosInf = js ''Infinity''"
| "toString NegInf = js ''-Infinity''"
| "toString NegZero = js ''0''"
| "toString (Num n) =
     (if n < 0 then 0x2D # magnitudeString (nat (- n)) else magnitudeString (nat n))"

section \<open>The component and its environment\<close>

text \<open>
  \<open>count\<close>, \<open>history\<close> and \<open>step\<close> are the three \<open>useState\<close> cells of the component.
  \<open>localStorage\<close> is the browser's store. \<open>listeners\<close> are the \<open>keydown\<close> listeners
  registered on the document: each is one \<open>handleKeyPress\<close> closure, identified by a
  number and carrying the value of \<open>step\<close> it closed over. \<open>cleanup\<close> is the closure the
  pending cleanup function of the keyboard effect will remove, and \<open>fresh\<close> the identity
  the next closure gets.
\<close>

record world =
  count :: number
  history :: "number list"
  step :: number
  localStorage :: "jsString \<rightharpoonup> jsString"
  listeners :: "(nat \<times> number) list"
  cleanup :: "nat option"
  fresh :: nat

definition STORAGE_KEY :: jsString where
  "STORAGE_KEY = js ''advancedCounterValue''"

subsection \<open>Lazy initialisers\<close>

definition initialCount :: "(jsString \<rightharpoonup> jsString) \<Rightarrow> number" where
  "initialCount storage =
     (case storage STORAGE_KEY of
        Some savedCount \<Rightarrow> (let parsedCount = parseInt savedCount in parsedCount)
      | None \<Rightarrow> Num 0)"

definition initialHistory :: "(jsString \<rightharpoonup> jsString) \<Rightarrow> number list" where
  "initialHistory storage =
     (case storage STORAGE_KEY of
        Some savedCount \<Rightarrow> (let parsedCount = parseInt savedCount in [parsedCount])
      | None \<Rightarrow> [Num 0])"

definition initialStep :: number where
  "initialStep = Num 1"

subsection \<open>Effects\<close>

text \<open>Effect 1, dependency \<open>[count]\<close>: write the count to the store.\<close>

definition autoSave :: "world \<Rightarrow> world" where
  "autoSave w = w\<lparr>localStorage := (localStorage w)(STORAGE_KEY \<mapsto> toString (count w))\<rparr>"

text \<open>
  Effect 2, dependency \<open>[step]\<close>: \<open>addListener\<close> is its body, which creates a new
  \<open>handleKeyPress\<close> closure over the current \<open>step\<close> and registers it;
  \<open>removeListener\<close> is the cleanup it returns, which unregisters that same closure.
\<close>

definition addListener :: "world \<Rightarrow> world" where
  "addListener w =
     w\<lparr>listeners := listeners w @ [(fresh w, step w)],
       cleanup := Some (fresh w),
       fresh := Suc (fresh w)\<rparr>"

definition removeListener :: "world \<Rightarrow> world" where
  "removeListener w =
     (case cleanup w of
        None \<Rightarrow> w
      | Some h \<Rightarrow> w\<lparr>listeners := filter (\<lambda>l. fst l \<noteq> h) (listeners w), cleanup := None\<rparr>)"

text \<open>
  After a render is committed, an effect runs again when its dependency differs from the
  one of the previous render (compared with \<open>Object.is\<close>, under which \<open>NaN\<close> equals
  itself); the cleanup of its previous run comes first. \<open>prev\<close> is the world of the
  previous render.
\<close>

definition commit :: "world \<Rightarrow> world \<Rightarrow> world" where
  "commit prev w =
     (let w1 = (if count w \<noteq> count prev then autoSave w else w);
          w2 = (if step w1 \<noteq> step prev then addListener (removeListener w1) else w1)
      in w2)"

subsection \<open>Handlers\<close>

definition handleIncrement :: "world \<Rightarrow> world" where
  "handleIncrement w =
     (let prevCount = count w;
          newCount = add prevCount (step w)
      in w\<lparr>count := newCount, history := history w @ [newCount]\<rparr>)"

definition handleDecrement :: "world \<Rightarrow> world" where
  "handleDecrement w =
     (let prevCount = count w;
          newCount = sub prevCount (step w)
      in w\<lparr>count := newCount, history := history w @ [newCount]\<rparr>)"

definition handleReset :: "world \<Rightarrow> world" where
  "handleReset w = w\<lparr>count := Num 0, history := [Num 0]\<rparr>"

definition handleStepChange :: "jsString \<Rightarrow> world \<Rightarrow> world" where
  "handleStepChange targetValue w =
     (let newStep = parseInt targetValue
      in if \<not> isNaN newStep then w\<lparr>step := Math_max (Num 1) newStep\<rparr> else w)"

text \<open>
  \<open>handleKeyPress\<close> is a closure: \<open>capturedStep\<close> is the \<open>step\<close> of the render whose
  effect created it, while the count it updates is the current one (\<open>prevCount\<close>).
\<close>

definition handleKeyPress :: "number \<Rightarrow> jsString \<Rightarrow> world \<Rightarrow> world" where
  "handleKeyPress capturedStep key w =
     (if key = js ''ArrowUp'' then
        (let prevCount = count w;
             newCount = add prevCount capturedStep
         in w\<lparr>count := newCount, history := history w @ [newCount]\<rparr>)
      else if key = js ''ArrowDown'' then
        (let prevCount = count w;
             newCount = sub prevCount capturedStep
         in w\<lparr>count := newCount, history := history w @ [newCount]\<rparr>)
      else w)"

subsection \<open>Mounting, events, unmounting\<close>

text \<open>
  Mounting runs the three initialisers and then both effects. The document carries no
  other \<open>keydown\<close> listener: nothing else in the application registers one.
\<close>

definition mount :: "(jsString \<rightharpoonup> jsString) \<Rightarrow> world" where
  "mount storage =
     addListener (autoSave
       \<lparr>count = initialCount storage,
        history = initialHistory storage,
        step = initialStep,
        localStorage = storage,
        listeners = [],
        cleanup = None,
        fresh = 0\<rparr>)"

datatype event =
    ClickIncrement
  | ClickDecrement
  | ClickReset
  | StepInput jsString
  | KeyDown jsString

text \<open>
  A click or an input change calls its handler; a key press calls every listener
  registered on the document, in the order of registration.
\<close>

fun handle :: "event \<Rightarrow> world \<Rightarrow> world" where
  "handle ClickIncrement w = handleIncrement w"
| "handle ClickDecrement w = handleDecrement w"
| "handle ClickReset w = handleReset w"
| "handle (StepInput targetValue) w = handleStepChange targetValue w"
| "handle (KeyDown key) w = foldl (\<lambda>w' l. handleKeyPress (snd l) key w') w (listeners w)"

text \<open>
  One event: the handlers run, the component renders again, the effects run. Key presses
  and clicks are rendered one by one, each before the next event is handled, and every
  updater function runs once for the update it was queued with.
\<close>

definition dispatch :: "event \<Rightarrow> world \<Rightarrow> world" where
  "dispatch e w = commit w (handle e w)"

definition run :: "world \<Rightarrow> event list \<Rightarrow> world" where
  "run w es = foldl (\<lambda>w' e. dispatch e w') w es"

text \<open>Unmounting runs the cleanup of the keyboard effect; the auto-save effect has none.\<close>

definition unmount :: "world \<Rightarrow> world" where
  "unmount w = removeListener w"

section \<open>Specification-side definitions\<close>

text \<open>
  The compound transition of the specification, in its words: compute
  \<open>newCount = currentCount + signedStep\<close>, append \<open>newCount\<close> to the history and set the
  count to \<open>newCount\<close>. It acts on the pair of count and history.
\<close>

definition applyDelta :: "number \<Rightarrow> number \<times> number list \<Rightarrow> number \<times> number list" where
  "applyDelta signedStep s =
     (let newCount = add (fst s) signedStep in (newCount, snd s @ [newCount]))"

text \<open>An increment or a decrement, requested by a button or by an arrow key.\<close>

datatype transition = Increment | Decrement

datatype trigger = Button | Key

fun triggerEvent :: "trigger \<times> transition \<Rightarrow> event" where
  "triggerEvent (Button, Increment) = ClickIncrement"
| "triggerEvent (Button, Decrement) = ClickDecrement"
| "triggerEvent (Key, Increment) = KeyDown (js ''ArrowUp'')"
| "triggerEvent (Key, Decrement) = KeyDown (js ''ArrowDown'')"

fun signedStep :: "number \<Rightarrow> transition \<Rightarrow> number" where
  "signedStep s Increment = s"
| "signedStep s Decrement = neg s"

text \<open>The events up to and including the most recent click on Reset; none when there is no such click.\<close>

definition upToLastReset :: "event list \<Rightarrow> event list" where
  "upToLastReset es = rev (dropWhile (\<lambda>e. e \<noteq> ClickReset) (rev es))"

text \<open>
  What every state reached from a mount satisfies: the history ends with the count, the
  step is an integer of at least 1 or the positive infinity, the document holds exactly one listener, which closed
  over the current step and is the one the pending cleanup removes, and the store holds
  the count's string.
\<close>

definition wellFormed :: "world \<Rightarrow> bool" where
  "wellFormed w \<longleftrightarrow>
     history w \<noteq> [] \<and> last (history w) = count w \<and>
     ((\<exists>n. step w = Num n \<and> 1 \<le> n) \<or> step w = PosInf) \<and>
     (\<exists>h. listeners w = [(h, step w)] \<and> cleanup w = Some h) \<and>
     localStorage w STORAGE_KEY = Some (toString (count w))"

section \<open>Auxiliary facts\<close>

subsection \<open>Fields after effects and handlers\<close>

lemma autoSave_fields [simp]:
  "count (autoSave w) = count w"
  "history (autoSave w) = history w"
  "step (autoSave w) = step w"
  "listeners (autoSave w) = listeners w"
  "cleanup (autoSave w) = cleanup w"
  "fresh (autoSave w) = fresh w"
  "localStorage (autoSave w) = (localStorage w)(STORAGE_KEY \<mapsto> toString (count w))"
  by (simp_all add: autoSave_def)

lemma addListener_fields [simp]:
  "count (addListener w) = count w"
  "history (addListener w) = history w"
  "step (addListener w) = step w"
  "localStorage (addListener w) = localStorage w"
  "listeners (addListener w) = listeners w @ [(fresh w, step w)]"
  "cleanup (addListener w) = Some (fresh w)"
  "fresh (addListener w) = Suc (fresh w)"
  by (simp_all add: addListener_def)

lemma removeListener_fields [simp]:
  "count (removeListener w) = count w"
  "history (removeListener w) = history w"
  "step (removeListener w) = step w"
  "localStorage (removeListener w) = localStorage w"
  "fresh (removeListener w) = fresh w"
  "cleanup (removeListener w) = None"
  by (simp_all add: removeListener_def split: option.splits)

lemma removeListener_listeners:
  "listeners (removeListener w) =
     (case cleanup w of None \<Rightarrow> listeners w | Some h \<Rightarrow> filter (\<lambda>l. fst l \<noteq> h) (listeners w))"
  by (simp add: removeListener_def split: option.splits)

lemma commit_fields [simp]:
  "count (commit prev w) = count w"
  "history (commit prev w) = history w"
  "step (commit prev w) = step w"
  by (simp_all add: commit_def Let_def)

lemma commit_localStorage:
  "localStorage (commit prev w) =
     (if count w \<noteq> count prev then (localStorage w)(STORAGE_KEY \<mapsto> toString (count w))
      else localStorage w)"
  by (simp add: commit_def Let_def)

lemma commit_listeners:
  "listeners (commit prev w) =
     (if step w \<noteq> step prev then listeners (removeListener w) @ [(fresh w, step w)]
      else listeners w)"
  by (simp add: commit_def Let_def removeListener_listeners split: option.splits)

lemma commit_cleanup:
  "cleanup (commit prev w) = (if step w \<noteq> step prev then Some (fresh w) else cleanup w)"
  by (simp add: commit_def Let_def)

lemma handleKeyPress_env [simp]:
  "step (handleKeyPress s key w) = step w"
  "localStorage (handleKeyPress s key w) = localStorage w"
  "listeners (handleKeyPress s key w) = listeners w"
  "cleanup (handleKeyPress s key w) = cleanup w"
  "fresh (handleKeyPress s key w) = fresh w"
  by (simp_all add: handleKeyPress_def Let_def)

lemma keys_env:
  "step (foldl (\<lambda>w' l. handleKeyPress (snd l) key w') w ls) = step w \<and>
   localStorage (foldl (\<lambda>w' l. handleKeyPress (snd l) key w') w ls) = localStorage w \<and>
   listeners (foldl (\<lambda>w' l. handleKeyPress (snd l) key w') w ls) = listeners w \<and>
   cleanup (foldl (\<lambda>w' l. handleKeyPress (snd l) key w') w ls) = cleanup w \<and>
   fresh (foldl (\<lambda>w' l. handleKeyPress (snd l) key w') w ls) = fresh w"
  by (induction ls arbitrary: w) simp_all

lemma handle_env [simp]:
  "localStorage (handle e w) = localStorage w"
  "listeners (handle e w) = listeners w"
  "cleanup (handle e w) = cleanup w"
  "fresh (handle e w) = fresh w"
  by (cases e; simp add: keys_env handleIncrement_def handleDecrement_def handleReset_def
        handleStepChange_def Let_def)+

lemma handle_step:
  "step (handle e w) = (case e of StepInput v \<Rightarrow> step (handleStepChange v w) | _ \<Rightarrow> step w)"
  by (cases e; simp add: keys_env handleIncrement_def handleDecrement_def handleReset_def Let_def)

lemma Math_max_one:
  "\<not> isNaN x \<Longrightarrow> (\<exists>n. Math_max (Num 1) x = Num n \<and> 1 \<le> n) \<or> Math_max (Num 1) x = PosInf"
  by (cases x) simp_all

lemma handleStepChange_step:
  assumes "(\<exists>n. step w = Num n \<and> 1 \<le> n) \<or> step w = PosInf"
  shows "(\<exists>n. step (handleStepChange v w) = Num n \<and> 1 \<le> n) \<or>
         step (handleStepChange v w) = PosInf"
proof (cases "isNaN (parseInt v)")
  case True
  with assms show ?thesis
    by (simp add: handleStepChange_def)
next
  case False
  with Math_max_one [OF False] show ?thesis
    by (simp add: handleStepChange_def)
qed

lemma handle_KeyDown_single:
  "listeners w = [(h, s)] \<Longrightarrow> handle (KeyDown key) w = handleKeyPress s key w"
  by simp

lemma handle_history:
  "wellFormed w \<Longrightarrow> history (handle e w) \<noteq> [] \<and> last (history (handle e w)) = count (handle e w)"
  by (cases e)
     (auto simp: wellFormed_def handleIncrement_def handleDecrement_def handleReset_def
        handleStepChange_def handleKeyPress_def Let_def split: if_splits)

lemma wellFormed_mount: "wellFormed (mount storage)"
  by (simp add: wellFormed_def mount_def initialCount_def initialHistory_def initialStep_def
      split: option.splits)

lemma wellFormed_dispatch:
  assumes "wellFormed w"
  shows "wellFormed (dispatch e w)"
proof -
  from assms obtain h where h: "listeners w = [(h, step w)]" "cleanup w = Some h"
    by (auto simp: wellFormed_def)
  from assms have st: "(\<exists>n. step w = Num n \<and> 1 \<le> n) \<or> step w = PosInf"
    by (simp add: wellFormed_def)
  have hist: "history (dispatch e w) \<noteq> [] \<and> last (history (dispatch e w)) = count (dispatch e w)"
    using handle_history [OF assms, of e] by (simp add: dispatch_def)
  have stp: "(\<exists>n. step (dispatch e w) = Num n \<and> 1 \<le> n) \<or> step (dispatch e w) = PosInf"
    using st handleStepChange_step [OF st]
    by (simp add: dispatch_def handle_step split: event.splits)
  have lis: "\<exists>h'. listeners (dispatch e w) = [(h', step (dispatch e w))] \<and> cleanup (dispatch e w) = Some h'"
    using h by (simp add: dispatch_def commit_listeners commit_cleanup removeListener_listeners)
  have sto: "localStorage (dispatch e w) STORAGE_KEY = Some (toString (count (dispatch e w)))"
    using assms by (simp add: dispatch_def commit_localStorage wellFormed_def)
  from hist stp lis sto show ?thesis
    by (simp add: wellFormed_def)
qed

lemma run_snoc: "run w (es @ [e]) = dispatch e (run w es)"
  by (simp add: run_def)

lemma wellFormed_run: "wellFormed w \<Longrightarrow> wellFormed (run w es)"
  by (induction es rule: rev_induct) (simp_all add: run_def wellFormed_dispatch)

lemma wellFormed_reachable: "wellFormed (run (mount storage) es)"
  by (rule wellFormed_run [OF wellFormed_mount])

subsection \<open>Decimal strings\<close>

lemma js_eq_iff [simp]: "js s = js t \<longleftrightarrow> s = t"
  by (simp add: js_def inj_on_def)

lemma roundInt_safe: "m < 2 ^ 53 \<Longrightarrow> roundInt m = m"
  by (simp add: roundInt_def)

lemma toNumber_safe [simp]: "\<bar>i\<bar> < 2 ^ 53 \<Longrightarrow> toNumber i = Num i"
proof -
  assume i: "\<bar>i\<bar> < 2 ^ 53"
  then have m: "nat \<bar>i\<bar> < 2 ^ 53"
    by (simp add: nat_less_iff)
  have "(2::nat) ^ 53 \<le> 2 ^ 1024"
    by (rule power_increasing) simp_all
  with m have "\<not> (2::nat) ^ 1024 \<le> nat \<bar>i\<bar>"
    by linarith
  with m show ?thesis
    by (simp only: toNumber_def roundInt_safe Let_def if_False) simp
qed

lemma sub_Num [simp]: "sub (Num a) (Num b) = add (Num a) (neg (Num b))"
  by (simp add: sub_def)

lemma toNumber_not_NaN: "toNumber i \<noteq> NaN"
  by (simp add: toNumber_def Let_def)

lemma isDigit_digitChar: "d < 10 \<Longrightarrow> isDigit (digitChar d)"
  by (simp add: isDigit_def digitChar_def)

lemma digitValue_digitChar: "digitValue (digitChar d) = d"
  by (simp add: digitValue_def digitChar_def)

lemma isDigit_not_space: "isDigit c \<Longrightarrow> \<not> isWhiteSpace c"
  by (simp add: isDigit_def isWhiteSpace_def)

lemma isDigit_not_sign: "isDigit c \<Longrightarrow> c \<noteq> 0x2B \<and> c \<noteq> 0x2D"
  by (auto simp: isDigit_def)

lemma sign_not_space: "\<not> isWhiteSpace 0x2B" "\<not> isWhiteSpace 0x2D"
  by (simp_all add: isWhiteSpace_def)

lemma sign_strings: "js ''+'' = [0x2B]" "js ''-'' = [0x2D]"
  by (simp_all add: js_def)

lemma digits_all: "\<forall>c \<in> set (digits n). isDigit c"
  by (induction n rule: digits.induct) (subst digits.simps, simp add: isDigit_digitChar)

lemma digits_nonempty: "digits n \<noteq> []"
  by (subst digits.simps) simp

lemma mathInt_snoc: "mathInt (Z @ [c]) = 10 * mathInt Z + digitValue c"
  by (simp add: mathInt_def)

lemma mathInt_digits: "mathInt (digits n) = n"
proof (induction n rule: digits.induct)
  case (1 n)
  show ?case
  proof (cases "n < 10")
    case True
    then show ?thesis
      by (subst digits.simps) (simp add: mathInt_def digitValue_digitChar)
  next
    case False
    with 1 have "mathInt (digits (n div 10)) = n div 10" by simp
    with False show ?thesis
      by (subst digits.simps) (simp add: mathInt_snoc digitValue_digitChar)
  qed
qed

lemma takeWhile_run:
  assumes "\<forall>c \<in> set ds. isDigit c" and "rest = [] \<or> \<not> isDigit (hd rest)"
  shows "takeWhile isDigit (ds @ rest) = ds"
proof -
  have "takeWhile isDigit (ds @ rest) = ds @ takeWhile isDigit rest"
    using assms(1) by (simp add: takeWhile_append2)
  moreover have "takeWhile isDigit rest = []"
    using assms(2) by (cases rest) auto
  ultimately show ?thesis by simp
qed

text \<open>What \<open>parseInt\<close> returns on white space, an optional sign, digits and a rest.\<close>

lemma parseInt_decompose:
  assumes ws: "\<forall>c \<in> set ws. isWhiteSpace c"
    and sg: "sg = [] \<or> sg = js ''+'' \<or> sg = js ''-''"
    and ds: "ds \<noteq> []" "\<forall>c \<in> set ds. isDigit c"
    and rest: "rest = [] \<or> \<not> isDigit (hd rest)"
  shows "parseInt (ws @ sg @ ds @ rest) =
           (if mathInt ds = 0 then (if sg = js ''-'' then NegZero else Num 0)
            else toNumber ((if sg = js ''-'' then - 1 else 1) * int (mathInt ds)))"
proof -
  from ds obtain d ds' where d: "ds = d # ds'" "isDigit d"
    by (cases ds) auto
  have Z: "takeWhile isDigit (ds @ rest) = ds"
    by (rule takeWhile_run [OF ds(2) rest])
  have S: "dropWhile isWhiteSpace (ws @ sg @ ds @ rest) = sg @ ds @ rest"
    using ws sg d by (auto simp: isDigit_not_space sign_not_space sign_strings)
  from sg show ?thesis
  proof (elim disjE)
    assume "sg = []"
    with S Z d isDigit_not_sign [OF d(2)] show ?thesis
      by (simp add: parseInt_def sign_strings)
  next
    assume "sg = js ''+''"
    with S Z ds(1) show ?thesis
      by (simp add: parseInt_def sign_strings)
  next
    assume "sg = js ''-''"
    with S Z ds(1) show ?thesis
      by (simp add: parseInt_def sign_strings)
  qed
qed

lemma toString_safe:
  assumes "\<bar>n\<bar> < 2 ^ 53"
  shows "toString (Num n) = (if n < 0 then js ''-'' @ digits (nat (- n)) else digits (nat n))"
proof -
  from assms have "nat (- n) < 2 ^ 53" and "nat n < 2 ^ 53"
    by auto
  then show ?thesis
    by (simp add: magnitudeString_def sign_strings)
qed

lemma parseInt_toString:
  assumes "\<bar>n\<bar> < 2 ^ 53" and "rest = [] \<or> \<not> isDigit (hd rest)"
  shows "parseInt (toString (Num n) @ rest) = Num n"
proof (cases "n < 0")
  case True
  have "parseInt ([] @ js ''-'' @ digits (nat (- n)) @ rest) =
      (if mathInt (digits (nat (- n))) = 0 then NegZero
       else toNumber (- 1 * int (mathInt (digits (nat (- n))))))"
    using parseInt_decompose [of "[]" "js ''-''" "digits (nat (- n))" rest] assms(2)
    by (simp add: digits_all digits_nonempty)
  with True assms(1) have p: "parseInt ((js ''-'' @ digits (nat (- n))) @ rest) = Num n"
    by (simp add: mathInt_digits)
  from toString_safe [OF assms(1)] True
  have "toString (Num n) = js ''-'' @ digits (nat (- n))"
    by (simp only: if_True)
  with p show ?thesis
    by (simp only:)
next
  case False
  have "parseInt ([] @ [] @ digits (nat n) @ rest) =
      (if mathInt (digits (nat n)) = 0 then Num 0 else toNumber (1 * int (mathInt (digits (nat n)))))"
    using parseInt_decompose [of "[]" "[]" "digits (nat n)" rest] assms(2)
    by (simp add: digits_all digits_nonempty sign_strings)
  with False assms(1) have p: "parseInt (digits (nat n) @ rest) = Num n"
    by (simp add: mathInt_digits)
  from toString_safe [OF assms(1)] False
  have "toString (Num n) = digits (nat n)"
    by (simp only: if_False)
  with p show ?thesis
    by (simp only:)
qed

lemma parseInt_NaN_iff:
  "parseInt s \<noteq> NaN \<longleftrightarrow>
     (\<exists>ws sg ds rest. s = ws @ sg @ ds @ rest \<and> (\<forall>c \<in> set ws. isWhiteSpace c) \<and>
        (sg = [] \<or> sg = js ''+'' \<or> sg = js ''-'') \<and> ds \<noteq> [] \<and> (\<forall>c \<in> set ds. isDigit c))"
  (is "?L \<longleftrightarrow> ?R")
proof
  assume ?L
  define S where "S = dropWhile isWhiteSpace s"
  define sg where "sg = (case S of [] \<Rightarrow> [] | c # r \<Rightarrow> if c = 0x2B \<or> c = 0x2D then [c] else [])"
  define S' where "S' = (case S of [] \<Rightarrow> S | c # r \<Rightarrow> if c = 0x2B \<or> c = 0x2D then r else S)"
  have s: "s = takeWhile isWhiteSpace s @ S" by (simp add: S_def)
  have S: "S = sg @ S'" by (auto simp: sg_def S'_def split: list.splits)
  have S': "S' = takeWhile isDigit S' @ dropWhile isDigit S'" by simp
  have Z: "takeWhile isDigit S' \<noteq> []"
    using \<open>?L\<close> unfolding S'_def S_def parseInt_def Let_def by (simp split: if_splits)
  have "s = takeWhile isWhiteSpace s @ sg @ takeWhile isDigit S' @ dropWhile isDigit S'"
    using s S S' by simp
  moreover have "\<forall>c \<in> set (takeWhile isWhiteSpace s). isWhiteSpace c"
    by (auto dest: set_takeWhileD)
  moreover have "sg = [] \<or> sg = js ''+'' \<or> sg = js ''-''"
    by (auto simp: sg_def sign_strings split: list.splits)
  moreover have "\<forall>c \<in> set (takeWhile isDigit S'). isDigit c"
    by (auto dest: set_takeWhileD)
  ultimately show ?R using Z by blast
next
  assume ?R
  then obtain ws sg ds rest where s: "s = ws @ sg @ ds @ rest"
    and ws: "\<forall>c \<in> set ws. isWhiteSpace c"
    and sg: "sg = [] \<or> sg = js ''+'' \<or> sg = js ''-''"
    and ds: "ds \<noteq> []" "\<forall>c \<in> set ds. isDigit c"
    by blast
  from ds obtain d ds' where d: "ds = d # ds'" "isDigit d" by (cases ds) auto
  have "dropWhile isWhiteSpace s = sg @ ds @ rest"
    using ws sg d s by (auto simp: isDigit_not_space sign_not_space sign_strings)
  then show ?L
    using sg d isDigit_not_sign [OF d(2)]
    by (auto simp: parseInt_def Let_def sign_strings toNumber_not_NaN)
qed

subsection \<open>Runs\<close>

lemmas component_defs =
  run_def dispatch_def commit_def handleIncrement_def handleDecrement_def handleReset_def
  handleStepChange_def handleKeyPress_def mount_def unmount_def autoSave_def addListener_def
  removeListener_def initialCount_def initialHistory_def initialStep_def Let_def

lemmas parse_defs =
  js_def parseInt_def isWhiteSpace_def isDigit_def mathInt_def digitValue_def digitChar_def
  digits.simps magnitudeString_def

lemmas number_defs =
  sub_def toNumber_def roundInt_def

lemma sub_neg: "sub a b = add a (neg b)"
  by (simp add: sub_def)

lemma dispatch_fields [simp]:
  "count (dispatch e w) = count (handle e w)"
  "history (dispatch e w) = history (handle e w)"
  "step (dispatch e w) = step (handle e w)"
  by (simp_all add: dispatch_def)

lemma run_Nil [simp]: "run w [] = w"
  by (simp add: run_def)

lemma run_Cons [simp]: "run w (e # es) = run (dispatch e w) es"
  by (simp add: run_def)

lemma run_append: "run w (es @ es') = run (run w es) es'"
  by (simp add: run_def)

lemma trigger_step:
  assumes "wellFormed w"
  shows "(count (dispatch (triggerEvent t) w), history (dispatch (triggerEvent t) w)) =
           applyDelta (signedStep (step w) (snd t)) (count w, history w) \<and>
         step (dispatch (triggerEvent t) w) = step w"
proof -
  from assms obtain h where "listeners w = [(h, step w)]"
    by (auto simp: wellFormed_def)
  then show ?thesis
    by (cases t rule: triggerEvent.cases)
       (simp_all add: applyDelta_def handleIncrement_def handleDecrement_def handleKeyPress_def
          Let_def sub_neg)
qed

lemma trigger_run:
  assumes "wellFormed w"
  shows "(count (run w (map triggerEvent ts)), history (run w (map triggerEvent ts))) =
           foldl (\<lambda>s t. applyDelta (signedStep (step w) (snd t)) s) (count w, history w) ts \<and>
         step (run w (map triggerEvent ts)) = step w"
proof (induction ts rule: rev_induct)
  case Nil
  show ?case by simp
next
  case (snoc t ts)
  have wf: "wellFormed (run w (map triggerEvent ts))"
    by (rule wellFormed_run [OF assms])
  show ?case
    using snoc trigger_step [OF wf, of t] by (simp add: run_append)
qed

subsection \<open>The store and the initialisers\<close>

lemma handleKeyPress_storage:
  "handleKeyPress c key (w\<lparr>localStorage := s\<rparr>) = (handleKeyPress c key w)\<lparr>localStorage := s\<rparr>"
  by (simp add: handleKeyPress_def Let_def)

lemma keys_storage:
  "foldl (\<lambda>w' l. handleKeyPress (snd l) key w') (w\<lparr>localStorage := s\<rparr>) ls =
     (foldl (\<lambda>w' l. handleKeyPress (snd l) key w') w ls)\<lparr>localStorage := s\<rparr>"
  by (induction ls arbitrary: w) (simp_all add: handleKeyPress_storage)

lemma handle_storage:
  "handle e (w\<lparr>localStorage := s\<rparr>) = (handle e w)\<lparr>localStorage := s\<rparr>"
  by (cases e)
     (simp_all add: keys_storage handleIncrement_def handleDecrement_def handleReset_def
        handleStepChange_def Let_def)

lemma dispatch_storage:
  "(dispatch e (w\<lparr>localStorage := s\<rparr>))\<lparr>localStorage := t\<rparr> = (dispatch e w)\<lparr>localStorage := t\<rparr>"
  by (simp add: dispatch_def handle_storage commit_def autoSave_def addListener_def
      removeListener_def Let_def split: option.splits)

lemma storage_apart:
  "x\<lparr>localStorage := t\<rparr> = y\<lparr>localStorage := t\<rparr> \<Longrightarrow> x = y\<lparr>localStorage := localStorage x\<rparr>"
  by (cases x, cases y) simp

lemma run_storage:
  "(run (w\<lparr>localStorage := s\<rparr>) es)\<lparr>localStorage := t\<rparr> = (run w es)\<lparr>localStorage := t\<rparr>"
proof (induction es rule: rev_induct)
  case Nil
  show ?case by simp
next
  case (snoc e es)
  have "run (w\<lparr>localStorage := s\<rparr>) es =
      (run w es)\<lparr>localStorage := localStorage (run (w\<lparr>localStorage := s\<rparr>) es)\<rparr>"
    by (rule storage_apart [OF snoc])
  then have "dispatch e (run (w\<lparr>localStorage := s\<rparr>) es) =
      dispatch e ((run w es)\<lparr>localStorage := localStorage (run (w\<lparr>localStorage := s\<rparr>) es)\<rparr>)"
    by simp
  then show ?case
    by (simp add: run_append dispatch_storage)
qed

lemma run_storage_fields:
  "count (run (w\<lparr>localStorage := s\<rparr>) es) = count (run w es)"
  "history (run (w\<lparr>localStorage := s\<rparr>) es) = history (run w es)"
  "step (run (w\<lparr>localStorage := s\<rparr>) es) = step (run w es)"
proof -
  have eq: "(run (w\<lparr>localStorage := s\<rparr>) es)\<lparr>localStorage := Map.empty\<rparr> =
      (run w es)\<lparr>localStorage := Map.empty\<rparr>"
    by (rule run_storage)
  from arg_cong [OF eq, of count] show "count (run (w\<lparr>localStorage := s\<rparr>) es) = count (run w es)"
    by simp
  from arg_cong [OF eq, of history] show "history (run (w\<lparr>localStorage := s\<rparr>) es) = history (run w es)"
    by simp
  from arg_cong [OF eq, of step] show "step (run (w\<lparr>localStorage := s\<rparr>) es) = step (run w es)"
    by simp
qed

lemma isNaN_iff: "isNaN x \<longleftrightarrow> x = NaN"
  by (cases x) simp_all

lemma mount_fields:
  "count (mount storage) = initialCount storage"
  "history (mount storage) = initialHistory storage"
  "step (mount storage) = Num 1"
  by (simp_all add: mount_def initialStep_def)

lemma initial_present:
  "storage STORAGE_KEY = Some saved \<Longrightarrow>
     initialCount storage = parseInt saved \<and> initialHistory storage = [parseInt saved]"
  by (simp add: initialCount_def initialHistory_def)

lemma parseInt_isNaN_iff:
  "isNaN (parseInt s) \<longleftrightarrow>
     \<not> (\<exists>ws sg ds rest. s = ws @ sg @ ds @ rest \<and> (\<forall>c \<in> set ws. isWhiteSpace c) \<and>
        (sg = [] \<or> sg = js ''+'' \<or> sg = js ''-'') \<and> ds \<noteq> [] \<and> (\<forall>c \<in> set ds. isDigit c))"
  by (subst parseInt_NaN_iff [symmetric]) (simp add: isNaN_iff)


subsection \<open>Keys and the history\<close>

lemma key_up:
  assumes "wellFormed w"
  shows "count (dispatch (KeyDown (js ''ArrowUp'')) w) = add (count w) (step w) \<and>
         history (dispatch (KeyDown (js ''ArrowUp'')) w) = history w @ [add (count w) (step w)]"
proof -
  from assms obtain h where "listeners w = [(h, step w)]"
    by (auto simp: wellFormed_def)
  then show ?thesis
    by (simp add: handleKeyPress_def Let_def)
qed





lemma history_extends:
  assumes "wellFormed w" and "e \<noteq> ClickReset"
  shows "\<exists>ys. history (dispatch e w) = history w @ ys"
proof -
  from assms(1) obtain h where "listeners w = [(h, step w)]"
    by (auto simp: wellFormed_def)
  with assms(2) show ?thesis
    by (cases e)
       (simp_all add: handleIncrement_def handleDecrement_def handleStepChange_def
          handleKeyPress_def Let_def)
qed

lemma upToLastReset_snoc:
  "upToLastReset (es @ [e]) = (if e = ClickReset then es @ [e] else upToLastReset es)"
  by (simp add: upToLastReset_def)

lemma first_history:
  "history (run (mount storage) es) ! 0 = count (run (mount storage) (upToLastReset es))"
proof (induction es rule: rev_induct)
  case Nil
  show ?case
    by (simp add: upToLastReset_def mount_fields initialCount_def initialHistory_def
        split: option.splits)
next
  case (snoc e es)
  show ?case
  proof (cases "e = ClickReset")
    case True
    then show ?thesis
      by (simp add: upToLastReset_snoc run_snoc handleReset_def)
  next
    case False
    have wf: "wellFormed (run (mount storage) es)"
      by (rule wellFormed_reachable)
    then have ne: "history (run (mount storage) es) \<noteq> []"
      by (simp add: wellFormed_def)
    from history_extends [OF wf False] obtain ys where
      "history (dispatch e (run (mount storage) es)) = history (run (mount storage) es) @ ys"
      by blast
    with ne have "history (dispatch e (run (mount storage) es)) ! 0 =
        history (run (mount storage) es) ! 0"
      by (simp add: nth_append)
    with snoc False show ?thesis
      by (simp add: upToLastReset_snoc run_snoc del: dispatch_fields)
  qed
qed


section \<open>Properties of the component\<close>

text \<open>
  C1. Transitions compose against the latest state. From every state reached from a mount,
  any sequence of increments and decrements, by button or by key, leaves the count and
  the history that the left fold of \<open>applyDelta\<close> over the sequence gives. From a state
  with count 0, history \<open>[0]\<close> and step 3, three increments give count 9 and history
  \<open>[0, 3, 6, 9]\<close>, and a decrement after them count 6 and history \<open>[0, 3, 6, 9, 6]\<close>.
\<close>

theorem transitions_compose:
  "(let w = run (mount storage) es; w' = run w (map triggerEvent ts)
    in (count w', history w') =
         foldl (\<lambda>s t. applyDelta (signedStep (step w) (snd t)) s) (count w, history w) ts) \<and>
   (count v = Num 0 \<and> history v = [Num 0] \<and> step v = Num 3 \<longrightarrow>
      count (run v [ClickIncrement, ClickIncrement, ClickIncrement]) = Num 9 \<and>
      history (run v [ClickIncrement, ClickIncrement, ClickIncrement]) =
        [Num 0, Num 3, Num 6, Num 9] \<and>
      count (run v [ClickIncrement, ClickIncrement, ClickIncrement, ClickDecrement]) = Num 6 \<and>
      history (run v [ClickIncrement, ClickIncrement, ClickIncrement, ClickDecrement]) =
        [Num 0, Num 3, Num 6, Num 9, Num 6])"
proof -
  have "wellFormed (run (mount storage) es)"
    by (rule wellFormed_reachable)
  then have general: "let w = run (mount storage) es; w' = run w (map triggerEvent ts)
    in (count w', history w') =
         foldl (\<lambda>s t. applyDelta (signedStep (step w) (snd t)) s) (count w, history w) ts"
    using trigger_run by (simp add: Let_def)
  have example: "count v = Num 0 \<and> history v = [Num 0] \<and> step v = Num 3 \<longrightarrow>
      count (run v [ClickIncrement, ClickIncrement, ClickIncrement]) = Num 9 \<and>
      history (run v [ClickIncrement, ClickIncrement, ClickIncrement]) =
        [Num 0, Num 3, Num 6, Num 9] \<and>
      count (run v [ClickIncrement, ClickIncrement, ClickIncrement, ClickDecrement]) = Num 6 \<and>
      history (run v [ClickIncrement, ClickIncrement, ClickIncrement, ClickDecrement]) =
        [Num 0, Num 3, Num 6, Num 9, Num 6]"
    by (simp add: handleIncrement_def handleDecrement_def Let_def)
  from general example show ?thesis by (rule conjI)
qed

theorem transitions_compose_witness:
  "count (run (mount Map.empty) [StepInput (js ''3'')]) = Num 0 \<and>
   history (run (mount Map.empty) [StepInput (js ''3'')]) = [Num 0] \<and>
   step (run (mount Map.empty) [StepInput (js ''3'')]) = Num 3 \<and>
   count (run (run (mount Map.empty) [StepInput (js ''3'')])
     [ClickIncrement, ClickIncrement, ClickIncrement, ClickDecrement]) = Num 6 \<and>
   history (run (run (mount Map.empty) [StepInput (js ''3'')])
     [ClickIncrement, ClickIncrement, ClickIncrement, ClickDecrement]) =
       [Num 0, Num 3, Num 6, Num 9, Num 6]"
proof -
  have pre: "count (run (mount Map.empty) [StepInput (js ''3'')]) = Num 0 \<and>
    history (run (mount Map.empty) [StepInput (js ''3'')]) = [Num 0] \<and>
    step (run (mount Map.empty) [StepInput (js ''3'')]) = Num 3"
    by (simp add: component_defs parse_defs)
  with transitions_compose [of Map.empty "[]" "[]" "run (mount Map.empty) [StepInput (js ''3'')]"]
  show ?thesis by blast
qed

text \<open>
  With the stored string \<open>"abc"\<close>, which \<open>parseInt\<close> reads as no number, neither
  initialiser falls back to a default: the count is \<open>NaN\<close> and the history is \<open>[NaN]\<close>,
  not \<open>[0]\<close>.
\<close>

theorem malformed_slot_paths_counterexample:
  "parseInt (js ''abc'') = NaN \<and>
   initialCount [STORAGE_KEY \<mapsto> js ''abc''] = NaN \<and>
   initialHistory [STORAGE_KEY \<mapsto> js ''abc''] = [NaN] \<and>
   initialHistory [STORAGE_KEY \<mapsto> js ''abc''] \<noteq> [Num 0]"
  by (simp add: initialCount_def initialHistory_def parse_defs)

text \<open>
  C2, as the code has it. The two initialisers never diverge: the history always starts
  as the one-element list of the initial count. When the stored string is present and
  \<open>parseInt\<close> reads it as no number, the count is \<open>NaN\<close> and the history is \<open>[NaN]\<close>.
\<close>

theorem malformed_slot_paths_agree:
  "initialHistory storage = [initialCount storage] \<and>
   (storage STORAGE_KEY = Some saved \<and> isNaN (parseInt saved) \<longrightarrow>
      initialCount storage = NaN \<and> initialHistory storage = [NaN] \<and>
      count (mount storage) = NaN \<and> history (mount storage) = [NaN])"
proof -
  have agree: "initialHistory storage = [initialCount storage]"
    by (simp add: initialCount_def initialHistory_def split: option.splits)
  have "isNaN x \<longrightarrow> x = NaN" for x
    by (cases x) simp_all
  then have nan: "storage STORAGE_KEY = Some saved \<and> isNaN (parseInt saved) \<longrightarrow>
      initialCount storage = NaN \<and> initialHistory storage = [NaN] \<and>
      count (mount storage) = NaN \<and> history (mount storage) = [NaN]"
    by (simp add: mount_def initialCount_def initialHistory_def)
  from agree nan show ?thesis by (rule conjI)
qed

theorem malformed_slot_paths_agree_witness:
  "[STORAGE_KEY \<mapsto> js ''abc''] STORAGE_KEY = Some (js ''abc'') \<and> isNaN (parseInt (js ''abc'')) \<and>
   count (mount [STORAGE_KEY \<mapsto> js ''abc'']) = NaN \<and>
   history (mount [STORAGE_KEY \<mapsto> js ''abc'']) = [NaN]"
proof -
  have "isNaN (parseInt (js ''abc''))"
    by (simp add: parse_defs)
  with malformed_slot_paths_agree [of "[STORAGE_KEY \<mapsto> js ''abc'']" "js ''abc''"]
  show ?thesis by simp
qed

text \<open>
  C3. The history invariant. In every state reached from a mount the history is not empty,
  its last element is the count, and its first element is the count as it was right after
  the most recent click on Reset, or right after the mount when there was none. An
  increment or a decrement, by button or by key, appends exactly the new count. Every
  event other than a click on Reset keeps the history as a prefix, so its length does not
  shrink; a click on Reset leaves the one-element history of the new count.
\<close>

theorem history_invariant:
  "history (run (mount storage) es) \<noteq> [] \<and>
   last (history (run (mount storage) es)) = count (run (mount storage) es) \<and>
   history (run (mount storage) es) ! 0 = count (run (mount storage) (upToLastReset es)) \<and>
   history (dispatch (triggerEvent t) (run (mount storage) es)) =
     history (run (mount storage) es) @ [count (dispatch (triggerEvent t) (run (mount storage) es))] \<and>
   (e \<noteq> ClickReset \<longrightarrow>
      (\<exists>ys. history (dispatch e (run (mount storage) es)) = history (run (mount storage) es) @ ys) \<and>
      length (history (run (mount storage) es)) \<le> length (history (dispatch e (run (mount storage) es)))) \<and>
   history (dispatch ClickReset (run (mount storage) es)) =
     [count (dispatch ClickReset (run (mount storage) es))]"
proof -
  have wf: "wellFormed (run (mount storage) es)"
    by (rule wellFormed_reachable)
  then have ends: "history (run (mount storage) es) \<noteq> [] \<and>
      last (history (run (mount storage) es)) = count (run (mount storage) es)"
    by (simp add: wellFormed_def)
  have starts: "history (run (mount storage) es) ! 0 =
      count (run (mount storage) (upToLastReset es))"
    by (rule first_history)
  have appends: "history (dispatch (triggerEvent t) (run (mount storage) es)) =
      history (run (mount storage) es) @ [count (dispatch (triggerEvent t) (run (mount storage) es))]"
    using trigger_step [OF wf, of t] by (simp add: applyDelta_def Let_def)
  have grows: "e \<noteq> ClickReset \<longrightarrow>
      (\<exists>ys. history (dispatch e (run (mount storage) es)) = history (run (mount storage) es) @ ys) \<and>
      length (history (run (mount storage) es)) \<le> length (history (dispatch e (run (mount storage) es)))"
  proof
    assume "e \<noteq> ClickReset"
    from history_extends [OF wf this] obtain ys where
      ys: "history (dispatch e (run (mount storage) es)) = history (run (mount storage) es) @ ys"
      by blast
    then have "length (history (run (mount storage) es)) \<le>
        length (history (dispatch e (run (mount storage) es)))"
      by (simp del: dispatch_fields)
    with ys show "(\<exists>ys. history (dispatch e (run (mount storage) es)) =
        history (run (mount storage) es) @ ys) \<and>
      length (history (run (mount storage) es)) \<le> length (history (dispatch e (run (mount storage) es)))"
      by blast
  qed
  have resets: "history (dispatch ClickReset (run (mount storage) es)) =
      [count (dispatch ClickReset (run (mount storage) es))]"
    by (simp add: handleReset_def)
  from ends starts appends grows resets show ?thesis by blast
qed

theorem history_invariant_witness:
  "StepInput (js ''2'') \<noteq> ClickReset \<and>
   upToLastReset [ClickIncrement, ClickReset, KeyDown (js ''ArrowDown'')] = [ClickIncrement, ClickReset] \<and>
   count (run (mount [STORAGE_KEY \<mapsto> js ''7'']) [ClickIncrement, ClickReset]) = Num 0 \<and>
   history (run (mount [STORAGE_KEY \<mapsto> js ''7'']) [ClickIncrement, ClickReset, KeyDown (js ''ArrowDown'')]) ! 0 =
     Num 0 \<and>
   length (history (run (mount [STORAGE_KEY \<mapsto> js ''7'']) [ClickIncrement, ClickReset, KeyDown (js ''ArrowDown'')])) \<le>
     length (history (dispatch (StepInput (js ''2''))
       (run (mount [STORAGE_KEY \<mapsto> js ''7'']) [ClickIncrement, ClickReset, KeyDown (js ''ArrowDown'')])))"
proof -
  have u: "upToLastReset [ClickIncrement, ClickReset, KeyDown (js ''ArrowDown'')] =
      [ClickIncrement, ClickReset]"
    by (simp add: upToLastReset_def)
  have c: "count (run (mount [STORAGE_KEY \<mapsto> js ''7'']) [ClickIncrement, ClickReset]) = Num 0"
    by (simp add: handleReset_def)
  from history_invariant [of "[STORAGE_KEY \<mapsto> js ''7'']"
      "[ClickIncrement, ClickReset, KeyDown (js ''ArrowDown'')]" "(Key, Decrement)" "StepInput (js ''2'')"]
  show ?thesis
    by (simp only: u c) simp
qed

text \<open>
  C4. The store mirrors the count and only the count. In every state reached from a mount
  the store holds the count's string under the key. A change of the step input leaves the
  store as it was, and an event writes to the store exactly when it changes the count.
\<close>

theorem persistence_mirrors_count:
  "localStorage (run (mount storage) es) STORAGE_KEY =
     Some (toString (count (run (mount storage) es))) \<and>
   localStorage (dispatch (StepInput v) w) = localStorage w \<and>
   localStorage (dispatch e w) =
     (if count (dispatch e w) = count w then localStorage w
      else (localStorage w)(STORAGE_KEY \<mapsto> toString (count (dispatch e w))))"
proof -
  have a: "localStorage (run (mount storage) es) STORAGE_KEY =
      Some (toString (count (run (mount storage) es)))"
    using wellFormed_reachable [of storage es] by (simp add: wellFormed_def)
  have b: "localStorage (dispatch (StepInput v) w) = localStorage w"
    by (simp add: dispatch_def commit_localStorage handleStepChange_def Let_def)
  have c: "localStorage (dispatch e w) =
     (if count (dispatch e w) = count w then localStorage w
      else (localStorage w)(STORAGE_KEY \<mapsto> toString (count (dispatch e w))))"
    by (simp add: dispatch_def commit_localStorage)
  from a b c show ?thesis by blast
qed

theorem persistence_mirrors_count_witness:
  "localStorage (run (mount Map.empty) [StepInput (js ''3''), ClickIncrement, ClickDecrement,
     ClickDecrement]) STORAGE_KEY = Some (js ''-3'')"
proof -
  have c: "count (run (mount Map.empty) [StepInput (js ''3''), ClickIncrement, ClickDecrement,
      ClickDecrement]) = Num (- 3)"
    by (simp add: handleStepChange_def handleIncrement_def handleDecrement_def mount_fields
        initialCount_def parse_defs Let_def)
  have t: "toString (Num (- 3)) = js ''-3''"
    by (simp add: parse_defs)
  from persistence_mirrors_count [of Map.empty "[StepInput (js ''3''), ClickIncrement,
      ClickDecrement, ClickDecrement]", THEN conjunct1]
  show ?thesis by (simp only: c t)
qed



text \<open>
  C6. Listener exclusivity. In every state reached from a mount the document holds
  exactly one listener, the one that closed over the current step and that the pending
  cleanup removes; this is so after any number of step inputs, and one Up arrow then
  appends exactly one element to the history. An event that changes the step replaces the
  listener by a new one, an event that does not leaves it; the cleanup alone leaves no
  listener, and neither does unmounting.
\<close>

theorem listener_exclusivity:
  "(\<exists>h. listeners (run (mount storage) es) = [(h, step (run (mount storage) es))] \<and>
        cleanup (run (mount storage) es) = Some h) \<and>
   length (listeners (run (mount storage) (es @ map StepInput vs))) = 1 \<and>
   history (dispatch (KeyDown (js ''ArrowUp'')) (run (mount storage) (es @ map StepInput vs))) =
     history (run (mount storage) (es @ map StepInput vs)) @
       [add (count (run (mount storage) (es @ map StepInput vs)))
            (step (run (mount storage) (es @ map StepInput vs)))] \<and>
   listeners (dispatch e (run (mount storage) es)) =
     (if step (dispatch e (run (mount storage) es)) = step (run (mount storage) es)
      then listeners (run (mount storage) es)
      else [(fresh (run (mount storage) es), step (dispatch e (run (mount storage) es)))]) \<and>
   listeners (removeListener (run (mount storage) es)) = [] \<and>
   listeners (unmount (run (mount storage) es)) = []"
proof -
  have wf: "wellFormed (run (mount storage) es)"
    by (rule wellFormed_reachable)
  then obtain h where h: "listeners (run (mount storage) es) = [(h, step (run (mount storage) es))]"
      "cleanup (run (mount storage) es) = Some h"
    by (auto simp: wellFormed_def)
  then have one: "\<exists>h. listeners (run (mount storage) es) = [(h, step (run (mount storage) es))] \<and>
        cleanup (run (mount storage) es) = Some h"
    by blast
  have wf': "wellFormed (run (mount storage) (es @ map StepInput vs))"
    by (rule wellFormed_reachable)
  then have len: "length (listeners (run (mount storage) (es @ map StepInput vs))) = 1"
    by (auto simp: wellFormed_def)
  have once: "history (dispatch (KeyDown (js ''ArrowUp'')) (run (mount storage) (es @ map StepInput vs))) =
     history (run (mount storage) (es @ map StepInput vs)) @
       [add (count (run (mount storage) (es @ map StepInput vs)))
            (step (run (mount storage) (es @ map StepInput vs)))]"
    using key_up [OF wf'] by blast
  have swap: "listeners (dispatch e (run (mount storage) es)) =
     (if step (dispatch e (run (mount storage) es)) = step (run (mount storage) es)
      then listeners (run (mount storage) es)
      else [(fresh (run (mount storage) es), step (dispatch e (run (mount storage) es)))])"
    using h by (simp add: dispatch_def commit_listeners removeListener_listeners)
  have gone: "listeners (removeListener (run (mount storage) es)) = []"
    using h by (simp add: removeListener_listeners)
  then have unmounted: "listeners (unmount (run (mount storage) es)) = []"
    by (simp add: unmount_def)
  from one len once swap gone unmounted show ?thesis by blast
qed

theorem listener_exclusivity_witness:
  "length (listeners (run (mount Map.empty) ([] @ map StepInput [js ''2'', js ''3'', js ''4'']))) = 1 \<and>
   listeners (run (mount Map.empty) (map StepInput [js ''2'', js ''3'', js ''4''])) = [(3, Num 4)] \<and>
   listeners (unmount (run (mount Map.empty) (map StepInput [js ''2'', js ''3'', js ''4'']))) = []"
proof -
  have "listeners (run (mount Map.empty) (map StepInput [js ''2'', js ''3'', js ''4''])) = [(3, Num 4)]"
    by (simp add: component_defs parse_defs)
  with listener_exclusivity [of Map.empty "[]" "[js ''2'', js ''3'', js ''4'']"]
    listener_exclusivity [of Map.empty "map StepInput [js ''2'', js ''3'', js ''4'']"]
  show ?thesis by simp
qed

text \<open>
  C7. Reset is total and does not depend on the state: from every world, with any count,
  any history and any step, a click on Reset leaves count 0 and history \<open>[0]\<close>, and the
  step as it was.
\<close>

theorem reset_total:
  "count (dispatch ClickReset w) = Num 0 \<and>
   history (dispatch ClickReset w) = [Num 0] \<and>
   step (dispatch ClickReset w) = step w"
  by (simp add: handleReset_def)

theorem reset_total_witness:
  "history (run (mount Map.empty) [StepInput (js ''4''), ClickIncrement, ClickIncrement]) =
     [Num 0, Num 4, Num 8] \<and>
   count (dispatch ClickReset
     (run (mount Map.empty) [StepInput (js ''4''), ClickIncrement, ClickIncrement])) = Num 0 \<and>
   history (dispatch ClickReset
     (run (mount Map.empty) [StepInput (js ''4''), ClickIncrement, ClickIncrement])) = [Num 0] \<and>
   step (dispatch ClickReset
     (run (mount Map.empty) [StepInput (js ''4''), ClickIncrement, ClickIncrement])) = Num 4"
proof -
  have "history (run (mount Map.empty) [StepInput (js ''4''), ClickIncrement, ClickIncrement]) =
      [Num 0, Num 4, Num 8] \<and>
    step (run (mount Map.empty) [StepInput (js ''4''), ClickIncrement, ClickIncrement]) = Num 4"
    by (simp add: component_defs parse_defs)
  with reset_total [of "run (mount Map.empty) [StepInput (js ''4''), ClickIncrement, ClickIncrement]"]
  show ?thesis by simp
qed




text \<open>
  C9. Initialisation. Mounting on a store without the key gives count 0, history \<open>[0]\<close>
  and step 1; mounting on a store that holds \<open>"7"\<close> gives count 7 and history \<open>[7]\<close>.
  The store is read at the mount only: whatever the store is changed to afterwards, the
  count, the history and the step after any sequence of events are the same.
\<close>

theorem initialization:
  "(storage STORAGE_KEY = None \<longrightarrow>
      count (mount storage) = Num 0 \<and> history (mount storage) = [Num 0] \<and>
      step (mount storage) = Num 1) \<and>
   (storage STORAGE_KEY = Some (js ''7'') \<longrightarrow>
      count (mount storage) = Num 7 \<and> history (mount storage) = [Num 7]) \<and>
   count (run (w\<lparr>localStorage := s\<rparr>) es) = count (run w es) \<and>
   history (run (w\<lparr>localStorage := s\<rparr>) es) = history (run w es) \<and>
   step (run (w\<lparr>localStorage := s\<rparr>) es) = step (run w es)"
proof -
  have absent: "storage STORAGE_KEY = None \<longrightarrow>
      count (mount storage) = Num 0 \<and> history (mount storage) = [Num 0] \<and>
      step (mount storage) = Num 1"
    by (simp add: mount_def initialCount_def initialHistory_def initialStep_def)
  have seven: "parseInt (js ''7'') = Num 7"
    by (simp add: parse_defs)
  have present: "storage STORAGE_KEY = Some (js ''7'') \<longrightarrow>
      count (mount storage) = Num 7 \<and> history (mount storage) = [Num 7]"
    by (simp add: mount_def initialCount_def initialHistory_def seven)
  have once: "count (run (w\<lparr>localStorage := s\<rparr>) es) = count (run w es) \<and>
     history (run (w\<lparr>localStorage := s\<rparr>) es) = history (run w es) \<and>
     step (run (w\<lparr>localStorage := s\<rparr>) es) = step (run w es)"
    by (simp add: run_storage_fields)
  from absent present once show ?thesis by blast
qed

theorem initialization_witness:
  "count (mount Map.empty) = Num 0 \<and> history (mount Map.empty) = [Num 0] \<and>
   step (mount Map.empty) = Num 1 \<and>
   count (mount [STORAGE_KEY \<mapsto> js ''7'']) = Num 7 \<and>
   history (mount [STORAGE_KEY \<mapsto> js ''7'']) = [Num 7]"
  using initialization [of Map.empty] initialization [of "[STORAGE_KEY \<mapsto> js ''7'']"]
  by simp

text \<open>
  C10. The persisted string is read with \<open>parseInt\<close>, which takes a leading decimal
  integer and ignores what follows it: \<open>"7abc"\<close> seeds count 7 and history \<open>[7]\<close>, and so
  does the decimal string of any integer of magnitude below \<open>2^53\<close> followed by text that
  does not start with a digit. In general white space, an optional sign and digits, followed
  by text that does not start with a digit, seed the count with the number for the signed
  digits. \<open>"abc"\<close> gives a count that is not a number, and the count is not a number
  exactly when the string is not white space, an optional sign and at least one digit,
  followed by anything.
\<close>

theorem parseInt_leading_integer:
  "(storage STORAGE_KEY = Some (js ''7abc'') \<longrightarrow>
      count (mount storage) = Num 7 \<and> history (mount storage) = [Num 7]) \<and>
   (storage STORAGE_KEY = Some (toString (Num n) @ rest) \<and> \<bar>n\<bar> < 2 ^ 53 \<and>
    (rest = [] \<or> \<not> isDigit (hd rest)) \<longrightarrow>
      count (mount storage) = Num n \<and> history (mount storage) = [Num n]) \<and>
   (storage STORAGE_KEY = Some (ws @ sg @ ds @ rest) \<and> (\<forall>c \<in> set ws. isWhiteSpace c) \<and>
    (sg = [] \<or> sg = js ''+'' \<or> sg = js ''-'') \<and> ds \<noteq> [] \<and> (\<forall>c \<in> set ds. isDigit c) \<and>
    (rest = [] \<or> \<not> isDigit (hd rest)) \<and> mathInt ds \<noteq> 0 \<longrightarrow>
      count (mount storage) = toNumber ((if sg = js ''-'' then - 1 else 1) * int (mathInt ds)) \<and>
      history (mount storage) = [toNumber ((if sg = js ''-'' then - 1 else 1) * int (mathInt ds))]) \<and>
   (storage STORAGE_KEY = Some (js ''abc'') \<longrightarrow>
      count (mount storage) = NaN \<and> history (mount storage) = [NaN]) \<and>
   (storage STORAGE_KEY = Some saved \<longrightarrow>
      (isNaN (count (mount storage)) \<longleftrightarrow>
         \<not> (\<exists>ws' sg' ds' rest'. saved = ws' @ sg' @ ds' @ rest' \<and> (\<forall>c \<in> set ws'. isWhiteSpace c) \<and>
               (sg' = [] \<or> sg' = js ''+'' \<or> sg' = js ''-'') \<and> ds' \<noteq> [] \<and>
               (\<forall>c \<in> set ds'. isDigit c))))"
proof -
  have "parseInt (js ''7abc'') = Num 7"
    by (simp add: parse_defs)
  then have a: "storage STORAGE_KEY = Some (js ''7abc'') \<longrightarrow>
      count (mount storage) = Num 7 \<and> history (mount storage) = [Num 7]"
    by (simp add: mount_fields initial_present)
  have b: "storage STORAGE_KEY = Some (toString (Num n) @ rest) \<and> \<bar>n\<bar> < 2 ^ 53 \<and>
    (rest = [] \<or> \<not> isDigit (hd rest)) \<longrightarrow>
      count (mount storage) = Num n \<and> history (mount storage) = [Num n]"
    using parseInt_toString [of n rest] by (auto simp: mount_fields initial_present)
  have g: "storage STORAGE_KEY = Some (ws @ sg @ ds @ rest) \<and> (\<forall>c \<in> set ws. isWhiteSpace c) \<and>
    (sg = [] \<or> sg = js ''+'' \<or> sg = js ''-'') \<and> ds \<noteq> [] \<and> (\<forall>c \<in> set ds. isDigit c) \<and>
    (rest = [] \<or> \<not> isDigit (hd rest)) \<and> mathInt ds \<noteq> 0 \<longrightarrow>
      count (mount storage) = toNumber ((if sg = js ''-'' then - 1 else 1) * int (mathInt ds)) \<and>
      history (mount storage) = [toNumber ((if sg = js ''-'' then - 1 else 1) * int (mathInt ds))]"
  proof
    assume h: "storage STORAGE_KEY = Some (ws @ sg @ ds @ rest) \<and> (\<forall>c \<in> set ws. isWhiteSpace c) \<and>
      (sg = [] \<or> sg = js ''+'' \<or> sg = js ''-'') \<and> ds \<noteq> [] \<and> (\<forall>c \<in> set ds. isDigit c) \<and>
      (rest = [] \<or> \<not> isDigit (hd rest)) \<and> mathInt ds \<noteq> 0"
    then have "parseInt (ws @ sg @ ds @ rest) =
        toNumber ((if sg = js ''-'' then - 1 else 1) * int (mathInt ds))"
      using parseInt_decompose [of ws sg ds rest] by simp
    with h show "count (mount storage) =
        toNumber ((if sg = js ''-'' then - 1 else 1) * int (mathInt ds)) \<and>
      history (mount storage) = [toNumber ((if sg = js ''-'' then - 1 else 1) * int (mathInt ds))]"
      by (simp add: mount_fields initial_present)
  qed
  have "parseInt (js ''abc'') = NaN"
    by (simp add: parse_defs)
  then have c: "storage STORAGE_KEY = Some (js ''abc'') \<longrightarrow>
      count (mount storage) = NaN \<and> history (mount storage) = [NaN]"
    by (simp add: mount_fields initial_present)
  have d: "storage STORAGE_KEY = Some saved \<longrightarrow>
      (isNaN (count (mount storage)) \<longleftrightarrow>
         \<not> (\<exists>ws' sg' ds' rest'. saved = ws' @ sg' @ ds' @ rest' \<and> (\<forall>c \<in> set ws'. isWhiteSpace c) \<and>
               (sg' = [] \<or> sg' = js ''+'' \<or> sg' = js ''-'') \<and> ds' \<noteq> [] \<and>
               (\<forall>c \<in> set ds'. isDigit c)))"
  proof
    assume "storage STORAGE_KEY = Some saved"
    then have "count (mount storage) = parseInt saved"
      by (simp add: mount_fields initial_present)
    then show "isNaN (count (mount storage)) \<longleftrightarrow>
         \<not> (\<exists>ws' sg' ds' rest'. saved = ws' @ sg' @ ds' @ rest' \<and> (\<forall>c \<in> set ws'. isWhiteSpace c) \<and>
               (sg' = [] \<or> sg' = js ''+'' \<or> sg' = js ''-'') \<and> ds' \<noteq> [] \<and>
               (\<forall>c \<in> set ds'. isDigit c))"
      by (simp only: parseInt_isNaN_iff)
  qed
  from a b g c d show ?thesis by blast
qed

theorem parseInt_leading_integer_witness:
  "toString (Num 42) @ js ''px'' = js ''42px'' \<and> \<bar>42\<bar> < (2::int) ^ 53 \<and>
   \<not> isDigit (hd (js ''px'')) \<and>
   count (mount [STORAGE_KEY \<mapsto> js ''42px'']) = Num 42 \<and>
   history (mount [STORAGE_KEY \<mapsto> js ''42px'']) = [Num 42] \<and>
   count (mount [STORAGE_KEY \<mapsto> js ''7abc'']) = Num 7 \<and>
   history (mount [STORAGE_KEY \<mapsto> js ''7abc'']) = [Num 7] \<and>
   count (mount [STORAGE_KEY \<mapsto> js ''abc'']) = NaN \<and>
   count (mount [STORAGE_KEY \<mapsto> [0xA0] @ js ''-'' @ js ''9007199254740993'' @ js ''px'']) =
     Num (- 9007199254740992)"
proof -
  have pre: "toString (Num 42) @ js ''px'' = js ''42px'' \<and> \<bar>42\<bar> < (2::int) ^ 53 \<and>
      \<not> isDigit (hd (js ''px''))"
    by (simp add: parse_defs)
  have big: "(\<forall>c \<in> set [0xA0]. isWhiteSpace c) \<and> js ''9007199254740993'' \<noteq> [] \<and>
      (\<forall>c \<in> set (js ''9007199254740993''). isDigit c) \<and>
      mathInt (js ''9007199254740993'') = 9007199254740993"
    by (simp add: parse_defs)
  have r: "toNumber (- 9007199254740993) = Num (- 9007199254740992)"
    by (simp add: toNumber_def roundInt_def bitLength.simps Let_def)
  from parseInt_leading_integer [of "[STORAGE_KEY \<mapsto> [0xA0] @ js ''-'' @ js ''9007199254740993'' @ js ''px'']"
      _ "js ''px''" "[0xA0]" "js ''-''" "js ''9007199254740993''"] big pre
  have x: "count (mount [STORAGE_KEY \<mapsto> [0xA0] @ js ''-'' @ js ''9007199254740993'' @ js ''px'']) =
      toNumber (- 1 * int 9007199254740993)"
    by simp
  from parseInt_leading_integer [of "[STORAGE_KEY \<mapsto> js ''42px'']" 42 "js ''px''"]
    parseInt_leading_integer [of "[STORAGE_KEY \<mapsto> js ''7abc'']"]
    parseInt_leading_integer [of "[STORAGE_KEY \<mapsto> js ''abc'']"] pre x r
  show ?thesis by simp
qed

end
